theory Spec2Isabelle
  imports Main "HOL-Library.Word" "HOL-Library.Signed_Division" "HOL-Library.Sublist"
begin

section \<open>The DataProcessor class of t4.cpp\<close>

text \<open>
  The C++ type \<open>int\<close> is modelled as a 32-bit word read in two's complement:
  comparisons are the signed ones (\<open><s\<close>, \<open>\<le>s\<close>), \<open>+\<close>, \<open>-\<close> and \<open>*\<close> are
  the word operations (which wrap), and \<open>sint\<close> gives the mathematical value.
  \<open>std::string\<close> is a \<open>string\<close>, \<open>std::vector<int>\<close> a list.
\<close>

type_synonym int32 = "32 word"

text \<open>The operator \<open>%\<close> of C++ on \<open>int\<close>: the remainder of the division that
  truncates towards zero.\<close>

definition c_rem :: "int32 \<Rightarrow> int32 \<Rightarrow> int32" where
  "c_rem a b = word_of_int (sint a smod sint b)"

text \<open>The object state: the private member \<open>std::vector<int> data\<close>.\<close>

record DataProcessor =
  data :: "int32 list"

text \<open>The constructor \<open>DataProcessor() {}\<close>: the vector is default-constructed, empty.\<close>

definition DataProcessor_new :: DataProcessor where
  "DataProcessor_new = \<lparr>data = []\<rparr>"

subsection \<open>processValue\<close>

text \<open>The body of \<open>processValue\<close>, branch for branch. Each \<open>return\<close> of the source is
  the value of its branch; the final \<open>return 0\<close> is reached from every path that does
  not return earlier (input not positive, mode neither literal, "triple" with
  \<open>input \<ge> 50\<close>).\<close>

definition processValue :: "int32 \<Rightarrow> string \<Rightarrow> int32" where
  "processValue input mode =
     (if 0 <s input then
        (if mode = ''double'' then
           (if input <s 100 then
              (if c_rem input 2 = 0 then
                 (if 10 <s input then input * 2 + 5
                  else input * 2)
               else input * 2 - 1)
            else 200)
         else if mode = ''triple'' then
           (if input <s 50 then input * 3
            else 0)
         else 0)
      else 0)"

subsection \<open>validateData\<close>

text \<open>The \<open>for\<close> loop of \<open>validateData\<close>, started at index \<open>i\<close>: its value is the
  value of \<open>allPositive\<close> when the loop is left, \<open>False\<close> through the \<open>break\<close> at the
  first element \<open>\<le> 0\<close>, \<open>True\<close> when \<open>i\<close> reaches \<open>inputData.size()\<close>. The loop only
  runs when the size is below 1000, so the \<open>int\<close> counter stays far from its bounds
  and is a natural number here.\<close>

function validateData_loop :: "int32 list \<Rightarrow> nat \<Rightarrow> bool" where
  "validateData_loop inputData i =
     (if i < length inputData then
        (if inputData ! i \<le>s 0 then False
         else validateData_loop inputData (Suc i))
      else True)"
  by pat_completeness auto
termination
  by (relation "measure (\<lambda>(inputData, i). length inputData - i)") auto

declare validateData_loop.simps [simp del]

definition validateData :: "int32 list \<Rightarrow> bool" where
  "validateData inputData =
     (if inputData \<noteq> [] then
        (if length inputData > 0 then
           (if length inputData < 1000 then
              (if validateData_loop inputData 0 then True else False)
            else False)
         else False)
      else False)"

subsection \<open>addData\<close>

definition addData :: "DataProcessor \<Rightarrow> int32 \<Rightarrow> DataProcessor" where
  "addData this v =
     (if 0 <s v then
        (if v <s 10000 then
           (if length (data this) < 100 then this\<lparr>data := data this @ [v]\<rparr>
            else this)
         else this)
      else this)"

subsection \<open>Calls on an object\<close>

text \<open>
  The methods as calls on an object, with the memory a call can reach passed through
  the body statement by statement: the state of \<open>this\<close> and, for \<open>validateData\<close>, the
  caller's vector that the reference \<open>inputData\<close> is bound to. Every statement takes
  the memory as the statement before it left it, and every \<open>return\<close> gives back the
  memory as it is at that point, next to the returned value. A statement that wrote to
  the object would show as an update of \<open>this\<close>, as \<open>push_back\<close> does in \<open>addData\<close>;
  a statement that read the object would show as a use of \<open>data this\<close>. \<open>input\<close> and
  \<open>mode\<close> are passed by value, so they are not part of the caller's memory.
\<close>

definition call_processValue ::
  "DataProcessor \<Rightarrow> int32 \<Rightarrow> string \<Rightarrow> int32 \<times> DataProcessor" where
  "call_processValue this input mode =
     (if 0 <s input then
        (if mode = ''double'' then
           (if input <s 100 then
              (if c_rem input 2 = 0 then
                 (if 10 <s input then (input * 2 + 5, this)
                  else (input * 2, this))
               else (input * 2 - 1, this))
            else (200, this))
         else if mode = ''triple'' then
           (if input <s 50 then (input * 3, this)
            else (0, this))
         else (0, this))
      else (0, this))"

text \<open>The loop of \<open>validateData\<close> on that memory: each iteration reads
  \<open>inputData.size()\<close> and \<open>inputData[i]\<close> from the vector as the iteration before left
  it, and hands object and vector on to the next one. The result is the value of
  \<open>allPositive\<close> with the memory at the exit of the loop.\<close>

function call_validateData_loop ::
  "DataProcessor \<Rightarrow> int32 list \<Rightarrow> nat \<Rightarrow> bool \<times> DataProcessor \<times> int32 list" where
  "call_validateData_loop this inputData i =
     (if i < length inputData then
        (if inputData ! i \<le>s 0 then (False, this, inputData)
         else call_validateData_loop this inputData (Suc i))
      else (True, this, inputData))"
  by pat_completeness auto
termination
  by (relation "measure (\<lambda>(this, inputData, i). length inputData - i)") auto

declare call_validateData_loop.simps [simp del]

text \<open>The local \<open>isValid\<close> starts as \<open>false\<close> and is set to \<open>true\<close> on one path only;
  \<open>return isValid\<close> gives it back with the memory as the path left it.\<close>

definition call_validateData ::
  "DataProcessor \<Rightarrow> int32 list \<Rightarrow> bool \<times> DataProcessor \<times> int32 list" where
  "call_validateData this inputData =
     (if inputData \<noteq> [] then
        (if length inputData > 0 then
           (if length inputData < 1000 then
              (case call_validateData_loop this inputData 0 of
                 (allPositive, this', inputData') \<Rightarrow>
                   (if allPositive then (True, this', inputData')
                    else (False, this', inputData')))
            else (False, this, inputData))
         else (False, this, inputData))
      else (False, this, inputData))"

text \<open>A client of the class makes a sequence of calls on one object, starting from the
  constructed one; \<open>run\<close> is the state of the object after such a sequence.\<close>

datatype call = ProcessValue int32 string | ValidateData "int32 list" | AddData int32

fun exec :: "DataProcessor \<Rightarrow> call \<Rightarrow> DataProcessor" where
  "exec this (ProcessValue input mode) = snd (call_processValue this input mode)"
| "exec this (ValidateData inputData) = fst (snd (call_validateData this inputData))"
| "exec this (AddData v) = addData this v"

definition run :: "DataProcessor \<Rightarrow> call list \<Rightarrow> DataProcessor" where
  "run this cs = foldl exec this cs"

section \<open>Arithmetic of small 32-bit values\<close>

lemma sint_int32_of_int:
  "- 2147483648 \<le> k \<Longrightarrow> k < 2147483648 \<Longrightarrow> sint (word_of_int k :: int32) = k"
  by (simp add: signed_of_int signed_take_bit_int_eq_self)

lemma sint_double_plus5:
  assumes "0 < sint (w :: int32)" and "sint w < 100"
  shows "sint (w * 2 + 5) = sint w * 2 + 5"
proof -
  have "w * 2 + 5 = word_of_int (sint w * 2 + 5)" by simp
  moreover have "sint (word_of_int (sint w * 2 + 5) :: int32) = sint w * 2 + 5"
    using assms by (intro sint_int32_of_int) auto
  ultimately show ?thesis by simp
qed

lemma sint_double:
  assumes "0 < sint (w :: int32)" and "sint w < 100"
  shows "sint (w * 2) = sint w * 2"
proof -
  have "w * 2 = word_of_int (sint w * 2)" by simp
  moreover have "sint (word_of_int (sint w * 2) :: int32) = sint w * 2"
    using assms by (intro sint_int32_of_int) auto
  ultimately show ?thesis by simp
qed

lemma sint_double_minus1:
  assumes "0 < sint (w :: int32)" and "sint w < 100"
  shows "sint (w * 2 - 1) = sint w * 2 - 1"
proof -
  have "w * 2 - 1 = word_of_int (sint w * 2 - 1)" by simp
  moreover have "sint (word_of_int (sint w * 2 - 1) :: int32) = sint w * 2 - 1"
    using assms by (intro sint_int32_of_int) auto
  ultimately show ?thesis by simp
qed

lemma sint_triple:
  assumes "0 < sint (w :: int32)" and "sint w < 50"
  shows "sint (w * 3) = sint w * 3"
proof -
  have "w * 3 = word_of_int (sint w * 3)" by simp
  moreover have "sint (word_of_int (sint w * 3) :: int32) = sint w * 3"
    using assms by (intro sint_int32_of_int) auto
  ultimately show ?thesis by simp
qed

lemma c_rem_2_positive:
  assumes "0 < sint w"
  shows "c_rem w 2 = 0 \<longleftrightarrow> even (sint w)"
proof -
  have r: "sint w smod sint (2 :: int32) = sint w mod 2"
    using assms by (simp add: smod_int_alt_def)
  show ?thesis
  proof (cases "even (sint w)")
    case True
    then have "sint w mod 2 = 0" by presburger
    with r True show ?thesis by (simp add: c_rem_def)
  next
    case False
    then have "sint w mod 2 = 1" by presburger
    with r False show ?thesis by (simp add: c_rem_def)
  qed
qed

lemma sint_processValue:
  "sint (processValue input mode) =
     (if 0 < sint input then
        (if mode = ''double'' then
           (if sint input < 100 then
              (if even (sint input) then
                 (if 10 < sint input then sint input * 2 + 5
                  else sint input * 2)
               else sint input * 2 - 1)
            else 200)
         else if mode = ''triple'' then
           (if sint input < 50 then sint input * 3
            else 0)
         else 0)
      else 0)"
  by (simp add: processValue_def word_sless_alt c_rem_2_positive
      sint_double_plus5 sint_double sint_double_minus1 sint_triple)

section \<open>processValue\<close>

text \<open>
  Claim C6. For every input \<open>\<le> 0\<close> and every mode string, recognised or not,
  \<open>processValue\<close> returns 0.
\<close>

theorem processValue_nonpositive:
  "sint input \<le> 0 \<Longrightarrow> processValue input mode = 0"
  by (simp add: processValue_def word_sless_alt)

theorem processValue_nonpositive_witness:
  "sint (- 5 :: int32) \<le> 0 \<and> processValue (- 5) ''triple'' = 0"
  using processValue_nonpositive [of "- 5" "''triple''"] by simp

text \<open>
  Claim C1. For every input with \<open>0 < input\<close> and mode "double", \<open>processValue\<close>
  returns 200 if \<open>input \<ge> 100\<close>; otherwise \<open>input * 2 + 5\<close> if the input is even and
  greater than 10; otherwise \<open>input * 2\<close> if the input is even; otherwise (the input is
  odd) \<open>input * 2 - 1\<close>. The values are the mathematical integers: no branch overflows.
\<close>

theorem processValue_double:
  "0 < sint input \<Longrightarrow>
   sint (processValue input ''double'') =
     (if 100 \<le> sint input then 200
      else if even (sint input) \<and> 10 < sint input then sint input * 2 + 5
      else if even (sint input) then sint input * 2
      else sint input * 2 - 1)"
  by (simp add: sint_processValue)

theorem processValue_double_witness:
  "0 < sint (12 :: int32) \<and> sint (processValue 12 ''double'') = 29"
  using processValue_double [of 12] by simp

text \<open>
  Claim C5. For every input with \<open>0 < input\<close> and mode "triple", \<open>processValue\<close>
  returns \<open>input * 3\<close> when \<open>input < 50\<close>, and 0 when \<open>input \<ge> 50\<close>.
\<close>

theorem processValue_triple:
  "0 < sint input \<Longrightarrow>
   sint (processValue input ''triple'') =
     (if sint input < 50 then sint input * 3 else 0)"
  by (simp add: sint_processValue)

theorem processValue_triple_witness:
  "0 < sint (60 :: int32) \<and> sint (processValue 60 ''triple'') = 0"
  using processValue_triple [of 60] by simp

text \<open>
  Claim C7. For every input and every mode string other than "double" and "triple",
  \<open>processValue\<close> returns 0. Its result type has no error value, and the 0 returned
  for an unrecognised mode is the same value as the 0 returned for a recognised mode
  (mode "triple" at 60, mode "double" at 0).
\<close>

theorem processValue_unrecognized:
  "mode \<noteq> ''double'' \<Longrightarrow> mode \<noteq> ''triple'' \<Longrightarrow>
   processValue input mode = 0 \<and>
   processValue input mode = processValue 60 ''triple'' \<and>
   processValue input mode = processValue 0 ''double''"
  by (simp add: processValue_def)

theorem processValue_unrecognized_witness:
  "''unknown'' \<noteq> ''double'' \<and> ''unknown'' \<noteq> ''triple'' \<and>
   processValue 5 ''unknown'' = 0 \<and>
   processValue 5 ''unknown'' = processValue 60 ''triple'' \<and>
   processValue 5 ''unknown'' = processValue 0 ''double''"
proof -
  have d: "''unknown'' \<noteq> ''double''" and t: "''unknown'' \<noteq> ''triple''"
    by simp_all
  from processValue_unrecognized [OF d t, of 5] d t show ?thesis
    by blast
qed

text \<open>
  Claim C10. For every input and every mode string, the value returned by
  \<open>processValue\<close> is non-negative.
\<close>

theorem processValue_nonnegative:
  "0 \<le> sint (processValue input mode)"
  by (simp add: sint_processValue)

section \<open>validateData\<close>

lemma validateData_loop_iff:
  "validateData_loop inputData i \<longleftrightarrow> (\<forall>j. i \<le> j \<and> j < length inputData \<longrightarrow> 0 < sint (inputData ! j))"
proof (induction inputData i rule: validateData_loop.induct)
  case (1 inputData i)
  show ?case
  proof (cases "i < length inputData")
    case False
    then show ?thesis by (simp add: validateData_loop.simps [of inputData i])
  next
    case in_range: True
    show ?thesis
    proof (cases "inputData ! i \<le>s 0")
      case True
      then have "\<not> 0 < sint (inputData ! i)" by (simp add: word_sle_eq)
      with in_range True show ?thesis
        by (auto simp: validateData_loop.simps [of inputData i])
    next
      case False
      then have pos: "0 < sint (inputData ! i)" by (simp add: word_sle_eq)
      have "(\<forall>j. i \<le> j \<and> j < length inputData \<longrightarrow> 0 < sint (inputData ! j)) \<longleftrightarrow>
            (\<forall>j. Suc i \<le> j \<and> j < length inputData \<longrightarrow> 0 < sint (inputData ! j))"
        using pos by (metis Suc_leI le_neq_implies_less Suc_leD)
      with 1 in_range False show ?thesis
        by (simp add: validateData_loop.simps [of inputData i])
    qed
  qed
qed

text \<open>
  Claim C2. For every sequence of integers, \<open>validateData\<close> returns true if and only
  if the sequence is non-empty, its length is strictly less than 1000, and every element
  is strictly greater than 0.
\<close>

theorem validateData_iff:
  "validateData inputData \<longleftrightarrow>
     inputData \<noteq> [] \<and> length inputData < 1000 \<and> (\<forall>x \<in> set inputData. 0 < sint x)"
  by (auto simp: validateData_def validateData_loop_iff all_set_conv_all_nth)

theorem validateData_iff_witness:
  "validateData [1, 2, 3] \<and> \<not> validateData [1, - 2, 3] \<and> \<not> validateData []"
  using validateData_iff [of "[1, 2, 3]"] validateData_iff [of "[1, - 2, 3]"]
    validateData_iff [of "[]"]
  by simp

section \<open>addData\<close>

text \<open>
  Claim C3. For every state of the object and every value, \<open>addData\<close> puts the value
  at the end of \<open>data\<close>, which grows by exactly one element and keeps its elements in
  order, if and only if \<open>value > 0\<close>, \<open>value < 10000\<close> and the length of \<open>data\<close> is
  below 100; in every other case the state is unchanged.
\<close>

theorem addData_iff:
  "(0 < sint v \<and> sint v < 10000 \<and> length (data this) < 100 \<longrightarrow>
      addData this v = this\<lparr>data := data this @ [v]\<rparr>) \<and>
   (\<not> (0 < sint v \<and> sint v < 10000 \<and> length (data this) < 100) \<longrightarrow>
      addData this v = this) \<and>
   (data (addData this v) = data this @ [v] \<longleftrightarrow>
      0 < sint v \<and> sint v < 10000 \<and> length (data this) < 100) \<and>
   (length (data (addData this v)) = length (data this) + 1 \<longleftrightarrow>
      0 < sint v \<and> sint v < 10000 \<and> length (data this) < 100)"
  by (simp add: addData_def word_sless_alt)

theorem addData_iff_witness:
  "addData \<lparr>data = [3]\<rparr> 7 = \<lparr>data = [3, 7]\<rparr> \<and>
   addData \<lparr>data = [3]\<rparr> 10000 = \<lparr>data = [3]\<rparr> \<and>
   addData \<lparr>data = [3]\<rparr> 0 = \<lparr>data = [3]\<rparr> \<and>
   addData \<lparr>data = [3]\<rparr> (- 4) = \<lparr>data = [3]\<rparr>"
  using addData_iff [of 7 "\<lparr>data = [3]\<rparr>"] addData_iff [of 10000 "\<lparr>data = [3]\<rparr>"]
    addData_iff [of 0 "\<lparr>data = [3]\<rparr>"] addData_iff [of "- 4" "\<lparr>data = [3]\<rparr>"]
  by simp

section \<open>The calls and the memory they reach\<close>

lemma call_processValue_eq:
  "call_processValue this input mode = (processValue input mode, this)"
  by (simp add: call_processValue_def processValue_def)

lemma call_validateData_loop_eq:
  "call_validateData_loop this inputData i = (validateData_loop inputData i, this, inputData)"
proof (induction this inputData i rule: call_validateData_loop.induct)
  case (1 this inputData i)
  show ?case
  proof (cases "i < length inputData \<and> \<not> inputData ! i \<le>s 0")
    case True
    then have "call_validateData_loop this inputData i =
        call_validateData_loop this inputData (Suc i)"
      by (simp add: call_validateData_loop.simps [of this inputData i])
    also have "\<dots> = (validateData_loop inputData (Suc i), this, inputData)"
      using True by (intro "1.IH") simp_all
    also have "validateData_loop inputData (Suc i) = validateData_loop inputData i"
      using True by (simp add: validateData_loop.simps [of inputData i])
    finally show ?thesis .
  next
    case False
    then show ?thesis
      by (auto simp: call_validateData_loop.simps [of this inputData i]
          validateData_loop.simps [of inputData i])
  qed
qed

lemma call_validateData_eq:
  "call_validateData this inputData = (validateData inputData, this, inputData)"
  by (simp add: call_validateData_def validateData_def call_validateData_loop_eq)

section \<open>Sequences of calls\<close>

lemma addData_in_range:
  "\<forall>x \<in> set (data this). 0 < sint x \<and> sint x < 10000 \<Longrightarrow>
   \<forall>x \<in> set (data (addData this v)). 0 < sint x \<and> sint x < 10000"
  by (auto simp: addData_def word_sless_alt)

lemma addData_length: "length (data this) \<le> 100 \<Longrightarrow> length (data (addData this v)) \<le> 100"
  by (simp add: addData_def)

lemma exec_in_range:
  "\<forall>x \<in> set (data this). 0 < sint x \<and> sint x < 10000 \<Longrightarrow>
   \<forall>x \<in> set (data (exec this c)). 0 < sint x \<and> sint x < 10000"
proof (cases c)
  case (AddData v)
  assume "\<forall>x \<in> set (data this). 0 < sint x \<and> sint x < 10000"
  then show ?thesis unfolding AddData exec.simps by (rule addData_in_range)
qed (simp_all add: call_processValue_eq call_validateData_eq)

lemma exec_length: "length (data this) \<le> 100 \<Longrightarrow> length (data (exec this c)) \<le> 100"
  by (cases c) (simp_all add: call_processValue_eq call_validateData_eq addData_length)

lemma run_in_range:
  "\<forall>x \<in> set (data this). 0 < sint x \<and> sint x < 10000 \<Longrightarrow>
   \<forall>x \<in> set (data (run this cs)). 0 < sint x \<and> sint x < 10000"
  unfolding run_def
proof (induction cs arbitrary: this)
  case Nil
  then show ?case by simp
next
  case (Cons c cs)
  from Cons.prems have "\<forall>x \<in> set (data (exec this c)). 0 < sint x \<and> sint x < 10000"
    by (rule exec_in_range)
  then have "\<forall>x \<in> set (data (foldl exec (exec this c) cs)). 0 < sint x \<and> sint x < 10000"
    by (rule Cons.IH)
  then show ?case by simp
qed

lemma run_length: "length (data this) \<le> 100 \<Longrightarrow> length (data (run this cs)) \<le> 100"
  unfolding run_def by (induction cs arbitrary: this) (simp_all add: exec_length)

lemma addData_prefix: "prefix (data this) (data (addData this v))"
  by (simp add: addData_def)

lemma exec_prefix: "prefix (data this) (data (exec this c))"
  by (cases c) (simp_all add: call_processValue_eq call_validateData_eq addData_prefix)

lemma run_prefix: "prefix (data this) (data (run this cs))"
  unfolding run_def
proof (induction cs arbitrary: this)
  case Nil
  show ?case by simp
next
  case (Cons c cs)
  have "prefix (data this) (data (exec this c))" by (rule exec_prefix)
  moreover have "prefix (data (exec this c)) (data (foldl exec (exec this c) cs))"
    by (rule Cons.IH)
  ultimately show ?case by (simp add: prefix_order.order_trans)
qed

lemma run_append: "run this (cs @ cs') = run (run this cs) cs'"
  by (simp add: run_def)

text \<open>
  Claim C4. In every state reached from the constructed object by any sequence of
  \<open>addData\<close>, \<open>processValue\<close> and \<open>validateData\<close> calls, every stored value \<open>v\<close>
  satisfies \<open>0 < v < 10000\<close>, the length of \<open>data\<close> is at most 100, and \<open>data\<close> never
  shrinks: after one more call, and after any further sequence of calls, the elements it
  had are a prefix of the elements it has.
\<close>

theorem run_invariant:
  "(\<forall>v \<in> set (data (run DataProcessor_new cs)). 0 < sint v \<and> sint v < 10000) \<and>
   length (data (run DataProcessor_new cs)) \<le> 100 \<and>
   prefix (data (run DataProcessor_new cs)) (data (exec (run DataProcessor_new cs) c)) \<and>
   prefix (data (run DataProcessor_new cs)) (data (run DataProcessor_new (cs @ cs')))"
proof -
  have "\<forall>v \<in> set (data DataProcessor_new). 0 < sint v \<and> sint v < 10000"
    by (simp add: DataProcessor_new_def)
  then have "\<forall>v \<in> set (data (run DataProcessor_new cs)). 0 < sint v \<and> sint v < 10000"
    by (rule run_in_range)
  moreover have "length (data (run DataProcessor_new cs)) \<le> 100"
    by (rule run_length) (simp add: DataProcessor_new_def)
  moreover have
    "prefix (data (run DataProcessor_new cs)) (data (exec (run DataProcessor_new cs) c))"
    by (rule exec_prefix)
  moreover have
    "prefix (data (run DataProcessor_new cs)) (data (run DataProcessor_new (cs @ cs')))"
    by (simp add: run_append run_prefix)
  ultimately show ?thesis by blast
qed

theorem run_invariant_witness:
  "data (run DataProcessor_new
      [AddData 5, ProcessValue 3 ''double'', AddData 0, ValidateData [1], AddData 7]) = [5, 7] \<and>
   0 < sint (7 :: int32) \<and> sint (7 :: int32) < 10000 \<and>
   prefix [5, 7] (data (exec (run DataProcessor_new
      [AddData 5, ProcessValue 3 ''double'', AddData 0, ValidateData [1], AddData 7])
      (AddData 9)))"
proof -
  have s: "data (run DataProcessor_new
      [AddData 5, ProcessValue 3 ''double'', AddData 0, ValidateData [1], AddData 7]) = [5, 7]"
    by (simp add: run_def addData_def DataProcessor_new_def call_processValue_eq
        call_validateData_eq word_sless_alt)
  have m: "(7 :: int32) \<in> set [5, 7]"
    by simp
  from run_invariant [of
      "[AddData 5, ProcessValue 3 ''double'', AddData 0, ValidateData [1], AddData 7]"
      "AddData 9" "[]"]
  have "(\<forall>v \<in> set [5, 7 :: int32]. 0 < sint v \<and> sint v < 10000) \<and>
    prefix [5, 7] (data (exec (run DataProcessor_new
      [AddData 5, ProcessValue 3 ''double'', AddData 0, ValidateData [1], AddData 7])
      (AddData 9)))"
    unfolding s by blast
  with s m show ?thesis by blast
qed

lemma run_AddData_in_range:
  "length (data this) \<le> 100 \<Longrightarrow> \<forall>v \<in> set vs. 0 < sint v \<and> sint v < 10000 \<Longrightarrow>
   data (run this (map AddData vs)) = take 100 (data this @ vs)"
  unfolding run_def
proof (induction vs arbitrary: this)
  case Nil
  then show ?case by simp
next
  case (Cons v vs)
  show ?case
  proof (cases "length (data this) < 100")
    case True
    with Cons.prems have "data (addData this v) = data this @ [v]"
      by (simp add: addData_def word_sless_alt)
    moreover from this True Cons.prems
    have "data (foldl exec (addData this v) (map AddData vs)) = take 100 (data (addData this v) @ vs)"
      by (intro Cons.IH) simp_all
    ultimately show ?thesis by simp
  next
    case False
    with Cons.prems have full: "length (data this) = 100" by simp
    then have "addData this v = this" by (simp add: addData_def)
    moreover from Cons.prems
    have "data (foldl exec this (map AddData vs)) = take 100 (data this @ vs)"
      by (intro Cons.IH) simp_all
    ultimately show ?thesis using full by simp
  qed
qed

text \<open>
  Claim C8. Starting from the constructed object, \<open>addData\<close> on any sequence of 101
  values each satisfying \<open>0 < value < 10000\<close> leaves \<open>data\<close> with exactly 100 elements:
  the first 100 of those values in their order.
\<close>

theorem addData_101:
  "length vs = 101 \<Longrightarrow> \<forall>v \<in> set vs. 0 < sint v \<and> sint v < 10000 \<Longrightarrow>
   data (run DataProcessor_new (map AddData vs)) = take 100 vs \<and>
   length (data (run DataProcessor_new (map AddData vs))) = 100"
  using run_AddData_in_range [of DataProcessor_new vs]
  by (simp add: DataProcessor_new_def)

theorem addData_101_witness:
  "length (map word_of_nat [1 ..< 102] :: int32 list) = 101 \<and>
   data (run DataProcessor_new (map AddData (map word_of_nat [1 ..< 102]))) =
     map word_of_nat [1 ..< 101] \<and>
   length (data (run DataProcessor_new (map AddData (map word_of_nat [1 ..< 102])))) = 100"
proof -
  have len: "length (map word_of_nat [1 ..< 102] :: int32 list) = 101"
    by simp
  have rng: "\<forall>v \<in> set (map word_of_nat [1 ..< 102] :: int32 list). 0 < sint v \<and> sint v < 10000"
    by code_simp
  have tk: "take 100 (map word_of_nat [1 ..< 102] :: int32 list) = map word_of_nat [1 ..< 101]"
    by (simp add: take_map)
  from addData_101 [OF len rng] len tk show ?thesis
    by simp
qed

section \<open>Frame of processValue and validateData\<close>

text \<open>
  Claim C9. \<open>processValue\<close> and \<open>validateData\<close> have no side effects: for every state
  of the object, running the body of either on the memory it can reach leaves the state
  of the object unchanged, \<open>validateData\<close> leaves the vector it was given unchanged, and
  the result of either depends on the arguments only, not on the state of the object.
\<close>

theorem calls_frame:
  "snd (call_processValue this input mode) = this \<and>
   fst (call_processValue this input mode) = fst (call_processValue this' input mode) \<and>
   fst (snd (call_validateData this inputData)) = this \<and>
   snd (snd (call_validateData this inputData)) = inputData \<and>
   fst (call_validateData this inputData) = fst (call_validateData this' inputData)"
proof -
  have p: "call_processValue s input mode = (processValue input mode, s)" for s
    by (rule call_processValue_eq)
  have v: "call_validateData s inputData = (validateData inputData, s, inputData)" for s
    by (rule call_validateData_eq)
  show ?thesis
    by (simp add: p v)
qed

theorem calls_frame_witness:
  "call_processValue \<lparr>data = [3]\<rparr> 12 ''double'' = (29, \<lparr>data = [3]\<rparr>) \<and>
   call_validateData \<lparr>data = [3]\<rparr> [1, 2] = (True, \<lparr>data = [3]\<rparr>, [1, 2]) \<and>
   call_validateData \<lparr>data = []\<rparr> [1, - 2] = (False, \<lparr>data = []\<rparr>, [1, - 2])"
proof -
  have p: "fst (call_processValue \<lparr>data = [3]\<rparr> 12 ''double'') = 29"
    by code_simp
  have v: "fst (call_validateData \<lparr>data = [3]\<rparr> [1, 2])"
    by code_simp
  have w: "\<not> fst (call_validateData \<lparr>data = []\<rparr> [1, - 2])"
    by code_simp
  from calls_frame [of "\<lparr>data = [3]\<rparr>" 12 "''double''" _ "[1, 2]"]
    calls_frame [of "\<lparr>data = []\<rparr>" 12 "''double''" _ "[1, - 2]"] p v w
  show ?thesis
    by (simp add: prod_eq_iff)
qed

end
